theory Spec2Isabelle
  imports Main "HOL-Library.AList" "HOL-Library.Sublist"
begin

section \<open>Data model of \<^verbatim>\<open>qms.py\<close>\<close>

text \<open>
  A monitor is the row that \<^verbatim>\<open>generate_monitors\<close> returns for one display. The
  program reads three of its positions: \<^verbatim>\<open>monitor[1]\<close> (the name),
  \<^verbatim>\<open>monitor[2]\<close> (\<^verbatim>\<open>"Yes"\<close> when the display is active) and
  \<^verbatim>\<open>monitor[3]\<close> (\<^verbatim>\<open>"No"\<close> for the displays that get a checkbox).
\<close>

record monitor =
  mon_0 :: string
  mon_1 :: string
  mon_2 :: string
  mon_3 :: string

text \<open>
  The calls that leave the program, in the order they are made. The functions of
  \<^verbatim>\<open>monitor_manager\<close> are collaborators outside the file: a call of
  \<^verbatim>\<open>generate_monitors\<close> is recorded with the list it returned, which the operations
  below take as a parameter.
\<close>

datatype call =
    RunDisplaySwitch string
  | ToggleMonitors "string list" bool
  | GenerateMonitors "monitor list"

text \<open>
  A JSON document as \<^verbatim>\<open>json.load\<close> returns it. An object is the dictionary that
  \<^verbatim>\<open>json.load\<close> builds, its keys in order and each of them once. A number is kept as
  an integer: the program never computes with one, it only ever compares a document with
  a string.
\<close>

datatype json =
    JNull
  | JBool bool
  | JNum int
  | JStr string
  | JArr "json list"
  | JObj "(string \<times> json) list"

text \<open>
  The settings file holds text that \<^verbatim>\<open>json.load\<close> parses, kept as the parsed document
  (what \<^verbatim>\<open>json.dump\<close> wrote is read back as the same document), or text that is not
  JSON, or bytes that are not text in the encoding of \<^verbatim>\<open>open(SETTINGS_FILE, "r")\<close>.
  The file is absent when \<open>settings_file\<close> is \<open>None\<close>.
\<close>

datatype file_content = JsonText json | NotJson | NotText

record world =
  settings_file :: "file_content option"
  calls :: "call list"

datatype error = JSONDecodeError | UnicodeDecodeError | AttributeError | TypeError | StopIteration

text \<open>
  The fields of a \<^verbatim>\<open>QMS\<close> object. \<open>monitor_checkboxes\<close> is the dictionary from a
  monitor name to its checkbox, in insertion order, with the checked state standing for
  the checkbox; it is \<open>None\<close> while the attribute does not exist (it is only created by
  \<^verbatim>\<open>create_monitor_checkboxes\<close>). \<open>visible\<close> is whether the main window is shown;
  \<open>tray_variant\<close> and \<open>tray_action\<close> are the icon variant and the first menu entry of
  the tray icon.
\<close>

record qms =
  no_ddcci :: bool
  monitors :: "monitor list"
  monitor_checkboxes :: "(string \<times> bool) list option"
  settings :: json
  first_run :: bool
  secondary_monitors_enabled :: bool
  tray_variant :: string
  tray_action :: string
  visible :: bool

text \<open>
  An operation returns the exception it raised, if any, with the object and the world as
  they were when it returned or raised.
\<close>

type_synonym outcome = "error option \<times> qms \<times> world"

section \<open>Collaborators\<close>

definition generate_monitors :: "monitor list \<Rightarrow> world \<Rightarrow> world" where
  "generate_monitors scan w = w\<lparr>calls := calls w @ [GenerateMonitors scan]\<rparr>"

definition run_display_switch :: "string \<Rightarrow> world \<Rightarrow> world" where
  "run_display_switch mode w = w\<lparr>calls := calls w @ [RunDisplaySwitch mode]\<rparr>"

definition toggle_monitors :: "string list \<Rightarrow> bool \<Rightarrow> world \<Rightarrow> world" where
  "toggle_monitors names enable w = w\<lparr>calls := calls w @ [ToggleMonitors names enable]\<rparr>"

section \<open>The operations of class \<^verbatim>\<open>QMS\<close>\<close>

subsection \<open>Checkboxes\<close>

text \<open>
  The loop of \<^verbatim>\<open>create_monitor_checkboxes\<close>: a new, unchecked checkbox is stored under
  \<^verbatim>\<open>monitor[1]\<close> for every monitor with \<^verbatim>\<open>monitor[3] == "No"\<close>. Assigning to a key
  that is already in a Python dictionary keeps the key's position, as \<open>AList.update\<close> does.
\<close>

fun checkbox_loop :: "monitor list \<Rightarrow> (string \<times> bool) list \<Rightarrow> (string \<times> bool) list" where
  "checkbox_loop [] cbs = cbs"
| "checkbox_loop (m # ms) cbs =
     checkbox_loop ms (if mon_3 m = ''No'' then AList.update (mon_1 m) False cbs else cbs)"

definition create_monitor_checkboxes :: "monitor list \<Rightarrow> qms \<Rightarrow> world \<Rightarrow> qms \<times> world" where
  "create_monitor_checkboxes scan q w =
     (q\<lparr>monitors := scan, monitor_checkboxes := Some (checkbox_loop scan [])\<rparr>,
      generate_monitors scan w)"

definition checked_names :: "(string \<times> bool) list \<Rightarrow> string list" where
  "checked_names cbs = map fst (filter snd cbs)"

text \<open>The document \<^verbatim>\<open>{"secondary_monitors": [...]}\<close> for a list of names.\<close>

definition settings_doc :: "string list \<Rightarrow> json" where
  "settings_doc names = JObj [(''secondary_monitors'', JArr (map JStr names))]"

definition save_settings :: "qms \<Rightarrow> world \<Rightarrow> outcome" where
  "save_settings q w =
     (case monitor_checkboxes q of
        None \<Rightarrow> (Some AttributeError, q, w)
      | Some cbs \<Rightarrow>
          (let doc = settings_doc (checked_names cbs)
           in (None, q\<lparr>settings := doc\<rparr>, w\<lparr>settings_file := Some (JsonText doc)\<rparr>)))"

text \<open>
  \<^verbatim>\<open>QCheckBox.setChecked\<close> on the checkbox stored under a name. Every checkbox is
  connected to \<^verbatim>\<open>save_settings\<close> through \<^verbatim>\<open>stateChanged\<close>, which Qt emits, and the slot
  runs, inside \<^verbatim>\<open>setChecked\<close> whenever the state really changes, whether the user or the
  program changed it. Nothing happens when the state stays the same, or when there is no
  such checkbox.
\<close>

definition set_box :: "string \<Rightarrow> bool \<Rightarrow> (string \<times> bool) list \<Rightarrow> (string \<times> bool) list" where
  "set_box n b cbs = map (\<lambda>(k, c). if k = n then (k, b) else (k, c)) cbs"

definition setChecked :: "string \<Rightarrow> bool \<Rightarrow> qms \<Rightarrow> world \<Rightarrow> outcome" where
  "setChecked n b q w =
     (case monitor_checkboxes q of
        None \<Rightarrow> (None, q, w)
      | Some cbs \<Rightarrow>
          (case map_of cbs n of
             None \<Rightarrow> (None, q, w)
           | Some c \<Rightarrow>
               if c = b then (None, q, w)
               else save_settings (q\<lparr>monitor_checkboxes := Some (set_box n b cbs)\<rparr>) w))"

subsection \<open>Loading the settings\<close>

text \<open>\<^verbatim>\<open>self.settings.get("secondary_monitors", [])\<close>: only a dictionary has \<^verbatim>\<open>get\<close>.\<close>

fun settings_get :: "json \<Rightarrow> error + json" where
  "settings_get (JObj kvs) =
     Inr (case map_of kvs ''secondary_monitors'' of None \<Rightarrow> JArr [] | Some v \<Rightarrow> v)"
| "settings_get _ = Inl AttributeError"

text \<open>
  \<^verbatim>\<open>monitor in value\<close> for a string \<^verbatim>\<open>monitor\<close>: membership in a list, the substring
  test on a string, the keys of a dictionary; \<^verbatim>\<open>None\<close>, a boolean and a number are not
  iterable.
\<close>

fun py_in :: "string \<Rightarrow> json \<Rightarrow> error + bool" where
  "py_in n (JArr xs) = Inr (JStr n \<in> set xs)"
| "py_in n (JStr s) = Inr (sublist n s)"
| "py_in n (JObj kvs) = Inr (n \<in> set (map fst kvs))"
| "py_in n _ = Inl TypeError"

text \<open>
  The body of the \<^verbatim>\<open>for\<close> loop of \<^verbatim>\<open>load_settings\<close> over the names of the dictionary.
  \<^verbatim>\<open>self.settings\<close> is read again in every iteration.
\<close>

fun load_loop :: "string list \<Rightarrow> qms \<Rightarrow> world \<Rightarrow> outcome" where
  "load_loop [] q w = (None, q, w)"
| "load_loop (n # ns) q w =
     (case settings_get (settings q) of
        Inl e \<Rightarrow> (Some e, q, w)
      | Inr v \<Rightarrow>
          (case py_in n v of
             Inl e \<Rightarrow> (Some e, q, w)
           | Inr b \<Rightarrow>
               (case setChecked n b q w of
                  (None, q', w') \<Rightarrow> load_loop ns q' w'
                | (Some e, q', w') \<Rightarrow> (Some e, q', w'))))"

text \<open>
  \<^verbatim>\<open>load_settings\<close>. \<^verbatim>\<open>json.load(f)\<close> reads the whole file and parses it, outside
  the \<^verbatim>\<open>try\<close> block: bytes that do not decode raise \<^verbatim>\<open>UnicodeDecodeError\<close>, text
  that is not JSON raises \<^verbatim>\<open>json.JSONDecodeError\<close>. The \<^verbatim>\<open>try\<close> block around the
  loop catches \<^verbatim>\<open>AttributeError\<close> only.
\<close>

definition load_settings :: "qms \<Rightarrow> world \<Rightarrow> outcome" where
  "load_settings q w =
     (case settings_file w of
        None \<Rightarrow> (None, q\<lparr>first_run := True\<rparr>, w)
      | Some NotJson \<Rightarrow> (Some JSONDecodeError, q, w)
      | Some NotText \<Rightarrow> (Some UnicodeDecodeError, q, w)
      | Some (JsonText doc) \<Rightarrow>
          (let q1 = q\<lparr>settings := doc\<rparr> in
           case monitor_checkboxes q1 of
             None \<Rightarrow> (None, q1, w)
           | Some cbs \<Rightarrow>
               (case load_loop (map fst cbs) q1 w of
                  (Some AttributeError, q2, w2) \<Rightarrow> (None, q2, w2)
                | r \<Rightarrow> r)))"

subsection \<open>Tray icon and toggle\<close>

definition get_active_monitors :: "qms \<Rightarrow> bool" where
  "get_active_monitors q =
     (0 < length (filter (\<lambda>m. mon_2 m = ''Yes'' \<and> mon_3 m = ''No'') (monitors q)))"

definition update_tray_icon :: "qms \<Rightarrow> qms" where
  "update_tray_icon q =
     q\<lparr>tray_variant := (if \<not> secondary_monitors_enabled q then ''secondary'' else ''primary'')\<rparr>"

definition update_tray_menu :: "qms \<Rightarrow> qms" where
  "update_tray_menu q =
     q\<lparr>tray_action := (if \<not> secondary_monitors_enabled q then ''Enable secondary monitors''
                        else ''Disable secondary monitors'')\<rparr>"

text \<open>
  \<^verbatim>\<open>next(index for index, mon in enumerate(self.monitors) if mon[1] == monitor)\<close>: the
  first position with that name; \<open>None\<close> stands for \<^verbatim>\<open>StopIteration\<close>.
\<close>

fun next_index :: "string \<Rightarrow> monitor list \<Rightarrow> nat option" where
  "next_index n [] = None"
| "next_index n (m # ms) =
     (if mon_1 m = n then Some 0 else map_option Suc (next_index n ms))"

text \<open>The per-monitor loop of \<^verbatim>\<open>toggle_secondary_monitors\<close> over the dictionary.\<close>

fun toggle_loop :: "(string \<times> bool) list \<Rightarrow> qms \<Rightarrow> world \<Rightarrow> error option \<times> world" where
  "toggle_loop [] q w = (None, w)"
| "toggle_loop ((monitor, checked) # cbs) q w =
     (if checked then
        (case next_index monitor (monitors q) of
           None \<Rightarrow> (Some StopIteration, w)
         | Some monitor_index \<Rightarrow>
             toggle_loop cbs q
               (if secondary_monitors_enabled q
                then toggle_monitors [mon_1 (monitors q ! monitor_index)] False w
                else toggle_monitors [mon_1 (monitors q ! monitor_index)] True w))
      else toggle_loop cbs q w)"

definition toggle_secondary_monitors :: "monitor list \<Rightarrow> qms \<Rightarrow> world \<Rightarrow> outcome" where
  "toggle_secondary_monitors scan q w =
     (let w1 = (if \<not> secondary_monitors_enabled q then run_display_switch ''/extend'' w else w);
          r = (if \<not> no_ddcci q then
                 (case monitor_checkboxes q of
                    None \<Rightarrow> (Some AttributeError, w1)
                  | Some cbs \<Rightarrow> toggle_loop cbs q w1)
               else (None, w1))
      in case r of
           (Some e, w2) \<Rightarrow> (Some e, q, w2)
         | (None, w2) \<Rightarrow>
             (let w3 = (if secondary_monitors_enabled q then run_display_switch ''/internal'' w2
                        else w2);
                  q1 = q\<lparr>secondary_monitors_enabled := \<not> secondary_monitors_enabled q\<rparr>;
                  q2 = update_tray_menu (update_tray_icon q1)
              in if \<not> no_ddcci q2
                 then (case create_monitor_checkboxes scan q2 w3 of (q3, w4) \<Rightarrow> (None, q3, w4))
                 else (None, q2, w3)))"

subsection \<open>Construction and the main program\<close>

text \<open>
  \<^verbatim>\<open>QMS.__init__\<close>. \<open>scan1\<close> is what \<^verbatim>\<open>generate_monitors\<close> returns to the constructor
  and \<open>scan2\<close> what it returns to \<^verbatim>\<open>create_monitor_checkboxes\<close>, called by
  \<^verbatim>\<open>init_ui\<close> unless \<^verbatim>\<open>no_ddcci\<close> is set.
\<close>

definition QMS_init :: "bool \<Rightarrow> monitor list \<Rightarrow> monitor list \<Rightarrow> world \<Rightarrow> outcome" where
  "QMS_init nd scan1 scan2 w =
     (let q0 = \<lparr>no_ddcci = nd, monitors = scan1, monitor_checkboxes = None, settings = JObj [],
                first_run = False, secondary_monitors_enabled = False, tray_variant = [],
                tray_action = [], visible = False\<rparr>;
          w0 = generate_monitors scan1 w;
          (q1, w1) = (if \<not> nd then create_monitor_checkboxes scan2 q0 w0 else (q0, w0));
          q2 = q1\<lparr>settings := JObj [], first_run := False\<rparr>;
          q3 = q2\<lparr>secondary_monitors_enabled := get_active_monitors q2\<rparr>;
          q4 = update_tray_menu (update_tray_icon q3)
      in load_settings q4 w1)"

text \<open>
  The end of the main program, when no command-line action was asked for: the window is
  built, and shown when \<^verbatim>\<open>first_run\<close> is set. An exception of the constructor is not
  caught.
\<close>

definition main :: "bool \<Rightarrow> monitor list \<Rightarrow> monitor list \<Rightarrow> world \<Rightarrow> outcome" where
  "main nd scan1 scan2 w =
     (case QMS_init nd scan1 scan2 w of
        (None, window, w') \<Rightarrow>
          (None, if first_run window then window\<lparr>visible := True\<rparr> else window, w')
      | (Some e, window, w') \<Rightarrow> (Some e, window, w'))"

subsection \<open>User actions\<close>

text \<open>
  What the user can do with the running application: click the checkbox of a monitor
  (which inverts it), press the rescan button, or trigger the toggle from the tray. The
  monitor list is what \<^verbatim>\<open>generate_monitors\<close> returns during the action.
\<close>

datatype action = Click string | Rescan "monitor list" | Toggle "monitor list"

definition click :: "string \<Rightarrow> qms \<Rightarrow> world \<Rightarrow> outcome" where
  "click n q w =
     (case monitor_checkboxes q of
        None \<Rightarrow> (None, q, w)
      | Some cbs \<Rightarrow>
          (case map_of cbs n of
             None \<Rightarrow> (None, q, w)
           | Some c \<Rightarrow> setChecked n (\<not> c) q w))"

fun step :: "action \<Rightarrow> qms \<Rightarrow> world \<Rightarrow> outcome" where
  "step (Click n) q w = click n q w"
| "step (Rescan scan) q w = (case create_monitor_checkboxes scan q w of (q', w') \<Rightarrow> (None, q', w'))"
| "step (Toggle scan) q w = toggle_secondary_monitors scan q w"

text \<open>A sequence of actions; an uncaught exception ends the run.\<close>

fun run :: "action list \<Rightarrow> qms \<Rightarrow> world \<Rightarrow> outcome" where
  "run [] q w = (None, q, w)"
| "run (a # as) q w =
     (case step a q w of
        (None, q', w') \<Rightarrow> run as q' w'
      | (Some e, q', w') \<Rightarrow> (Some e, q', w'))"

text \<open>The actions of the user on an application that has started.\<close>

definition run_from :: "action list \<Rightarrow> outcome \<Rightarrow> outcome" where
  "run_from as r =
     (case r of
        (None, q, w) \<Rightarrow> run as q w
      | (Some e, q, w) \<Rightarrow> (Some e, q, w))"

section \<open>Notions the properties are stated with\<close>

definition raised :: "outcome \<Rightarrow> error option" where
  "raised r = fst r"

definition state_of :: "outcome \<Rightarrow> qms" where
  "state_of r = fst (snd r)"

definition world_of :: "outcome \<Rightarrow> world" where
  "world_of r = snd (snd r)"

text \<open>The calls made between two worlds, the second reached from the first.\<close>

definition new_calls :: "world \<Rightarrow> world \<Rightarrow> call list" where
  "new_calls w w' = drop (length (calls w)) (calls w')"

definition per_monitor :: "bool \<Rightarrow> string list \<Rightarrow> call list" where
  "per_monitor enable ns = map (\<lambda>n. ToggleMonitors [n] enable) ns"

text \<open>The list returned by the most recent call of \<^verbatim>\<open>generate_monitors\<close>.\<close>

fun last_scan :: "call list \<Rightarrow> monitor list option" where
  "last_scan [] = None"
| "last_scan (c # cs) =
     (case last_scan cs of
        Some s \<Rightarrow> Some s
      | None \<Rightarrow> (case c of GenerateMonitors s \<Rightarrow> Some s | _ \<Rightarrow> None))"

text \<open>The names of the monitors of a scan with \<^verbatim>\<open>monitor[3] == "No"\<close>.\<close>

definition selectable_names :: "monitor list \<Rightarrow> string set" where
  "selectable_names scan = set (map mon_1 (filter (\<lambda>m. mon_3 m = ''No'') scan))"

text \<open>The strings listed under \<^verbatim>\<open>secondary_monitors\<close> in the settings file.\<close>

fun json_strings :: "json list \<Rightarrow> string list" where
  "json_strings [] = []"
| "json_strings (JStr s # xs) = s # json_strings xs"
| "json_strings (_ # xs) = json_strings xs"

fun persisted_names :: "file_content option \<Rightarrow> string list" where
  "persisted_names (Some (JsonText (JObj kvs))) =
     (case map_of kvs ''secondary_monitors'' of Some (JArr xs) \<Rightarrow> json_strings xs | _ \<Rightarrow> [])"
| "persisted_names _ = []"

text \<open>The top-level keys of the settings file.\<close>

fun file_keys :: "file_content option \<Rightarrow> string list" where
  "file_keys (Some (JsonText (JObj kvs))) = map fst kvs"
| "file_keys _ = []"

text \<open>
  The invariant behind the checkboxes: they are named after monitors of the most recent
  scan with \<^verbatim>\<open>monitor[3] == "No"\<close>, which is the list kept in \<^verbatim>\<open>self.monitors\<close>,
  and no name occurs twice.
\<close>

definition boxes_from_scan :: "qms \<Rightarrow> world \<Rightarrow> bool" where
  "boxes_from_scan q w =
     (case monitor_checkboxes q of
        None \<Rightarrow> True
      | Some cbs \<Rightarrow>
          last_scan (calls w) = Some (monitors q)
          \<and> set (map fst cbs) \<subseteq> selectable_names (monitors q)
          \<and> distinct (map fst cbs))"

subsection \<open>Example configurations\<close>

definition monitor1 :: monitor where
  "monitor1 = \<lparr>mon_0 = ''1'', mon_1 = ''Monitor1'', mon_2 = ''Yes'', mon_3 = ''No''\<rparr>"

definition monitor2 :: monitor where
  "monitor2 = \<lparr>mon_0 = ''2'', mon_1 = ''Monitor2'', mon_2 = ''Yes'', mon_3 = ''No''\<rparr>"

definition monitor1_off :: monitor where
  "monitor1_off = \<lparr>mon_0 = ''1'', mon_1 = ''Monitor1'', mon_2 = ''No'', mon_3 = ''No''\<rparr>"

text \<open>A world with no settings file, with a file that is not JSON, with a file of bytes
  that are not text, with a file that lists two monitors, and with a file that has a
  further key.\<close>

definition first_start :: world where
  "first_start = \<lparr>settings_file = None, calls = []\<rparr>"

definition broken_file :: world where
  "broken_file = \<lparr>settings_file = Some NotJson, calls = []\<rparr>"

definition binary_file :: world where
  "binary_file = \<lparr>settings_file = Some NotText, calls = []\<rparr>"

definition two_saved :: world where
  "two_saved = \<lparr>settings_file = Some (JsonText (settings_doc [''Monitor1'', ''Monitor2''])),
                 calls = []\<rparr>"

definition extra_key_file :: world where
  "extra_key_file =
     \<lparr>settings_file = Some (JsonText (JObj [(''secondary_monitors'', JArr []),
                                                 (''theme'', JStr ''dark'')])),
      calls = []\<rparr>"

text \<open>A running application with one monitor and its checkbox, unchecked or checked,
  and one with two monitors and their checkboxes.\<close>

definition one_box :: "bool \<Rightarrow> bool \<Rightarrow> qms" where
  "one_box enabled checked =
     \<lparr>no_ddcci = False, monitors = [monitor1],
      monitor_checkboxes = Some [(''Monitor1'', checked)], settings = JObj [],
      first_run = False, secondary_monitors_enabled = enabled,
      tray_variant = (if enabled then ''primary'' else ''secondary''),
      tray_action = (if enabled then ''Disable secondary monitors''
                     else ''Enable secondary monitors''),
      visible = False\<rparr>"

definition two_boxes :: "bool \<Rightarrow> bool \<Rightarrow> qms" where
  "two_boxes checked1 checked2 =
     \<lparr>no_ddcci = False, monitors = [monitor1, monitor2],
      monitor_checkboxes = Some [(''Monitor1'', checked1), (''Monitor2'', checked2)],
      settings = JObj [], first_run = False, secondary_monitors_enabled = True,
      tray_variant = ''primary'', tray_action = ''Disable secondary monitors'',
      visible = False\<rparr>"

section \<open>Unfolding the operations\<close>

lemmas example_defs =
  monitor1_def monitor2_def monitor1_off_def first_start_def broken_file_def binary_file_def
  two_saved_def extra_key_file_def one_box_def two_boxes_def

lemmas outcome_defs = raised_def state_of_def world_of_def

lemmas operation_defs =
  toggle_secondary_monitors_def create_monitor_checkboxes_def generate_monitors_def
  run_display_switch_def toggle_monitors_def update_tray_icon_def update_tray_menu_def
  save_settings_def setChecked_def set_box_def checked_names_def settings_doc_def
  load_settings_def QMS_init_def main_def click_def get_active_monitors_def

section \<open>The order of the calls of a toggle\<close>

lemma next_index_name: "next_index n ms = Some i \<Longrightarrow> i < length ms \<and> mon_1 (ms ! i) = n"
proof (induction ms arbitrary: i)
  case Nil
  then show ?case by simp
next
  case (Cons m ms)
  show ?case
  proof (cases "mon_1 m = n")
    case True
    with Cons.prems show ?thesis by simp
  next
    case False
    with Cons.prems obtain j where j: "next_index n ms = Some j" "i = Suc j"
      by auto
    with Cons.IH [of j] show ?thesis by simp
  qed
qed

lemma toggle_loop_calls:
  "toggle_loop cbs q w = (e, w') \<Longrightarrow>
     \<exists>ns. calls w' = calls w @ per_monitor (\<not> secondary_monitors_enabled q) ns
        \<and> settings_file w' = settings_file w
        \<and> (e = None \<longrightarrow> ns = checked_names cbs)"
proof (induction cbs q w rule: toggle_loop.induct)
  case (1 q w)
  then show ?case by (simp add: per_monitor_def checked_names_def)
next
  case (2 monitor checked cbs q w)
  show ?case
  proof (cases checked)
    case False
    with 2 show ?thesis by (simp add: checked_names_def)
  next
    case True
    show ?thesis
    proof (cases "next_index monitor (monitors q)")
      case None
      with True "2.prems" have "w' = w" "e = Some StopIteration" by simp_all
      then show ?thesis by (simp add: per_monitor_def)
    next
      case (Some i)
      let ?w1 = "toggle_monitors [monitor] (\<not> secondary_monitors_enabled q) w"
      from Some have nm: "mon_1 (monitors q ! i) = monitor"
        by (simp add: next_index_name)
      have w1: "(if secondary_monitors_enabled q
                 then toggle_monitors [mon_1 (monitors q ! i)] False w
                 else toggle_monitors [mon_1 (monitors q ! i)] True w) = ?w1"
        using nm by simp
      from True Some "2.prems" have run: "toggle_loop cbs q ?w1 = (e, w')"
        by (simp only: toggle_loop.simps if_True option.case w1)
      from "2.IH"(1) [OF True Some] run
      obtain ns where ns: "calls w' = calls ?w1 @ per_monitor (\<not> secondary_monitors_enabled q) ns"
        "settings_file w' = settings_file ?w1" "e = None \<longrightarrow> ns = checked_names cbs"
        unfolding w1 by blast
      have "calls w' = calls w @ per_monitor (\<not> secondary_monitors_enabled q) (monitor # ns)"
        using ns(1) by (simp add: toggle_monitors_def per_monitor_def)
      moreover have "settings_file w' = settings_file w"
        using ns(2) by (simp add: toggle_monitors_def)
      moreover have "e = None \<longrightarrow> monitor # ns = checked_names ((monitor, checked) # cbs)"
        using ns(3) True by (simp add: checked_names_def)
      ultimately show ?thesis by blast
    qed
  qed
qed


lemma toggle_calls_shape:
  assumes "toggle_secondary_monitors scan q w = (e, q', w')"
  shows "\<exists>ns. calls w' = calls w
            @ (if secondary_monitors_enabled q then [] else [RunDisplaySwitch ''/extend''])
            @ per_monitor (\<not> secondary_monitors_enabled q) ns
            @ (if secondary_monitors_enabled q \<and> e = None then [RunDisplaySwitch ''/internal''] else [])
            @ (if e = None \<and> \<not> no_ddcci q then [GenerateMonitors scan] else [])"
proof -
  let ?en = "secondary_monitors_enabled q"
  let ?w1 = "if \<not> ?en then run_display_switch ''/extend'' w else w"
  let ?r = "if \<not> no_ddcci q then
              (case monitor_checkboxes q of
                 None \<Rightarrow> (Some AttributeError, ?w1)
               | Some cbs \<Rightarrow> toggle_loop cbs q ?w1)
            else (None, ?w1)"
  obtain e2 w2 where r: "?r = (e2, w2)" by (cases ?r)
  have w1: "calls ?w1 = calls w @ (if ?en then [] else [RunDisplaySwitch ''/extend''])"
    by (simp add: run_display_switch_def)
  have "\<exists>ns. calls w2 = calls ?w1 @ per_monitor (\<not> ?en) ns"
  proof (cases "no_ddcci q")
    case True
    with r have "w2 = ?w1" by simp
    then have "calls w2 = calls ?w1 @ per_monitor (\<not> ?en) []" by (simp add: per_monitor_def)
    then show ?thesis by blast
  next
    case nd: False
    show ?thesis
    proof (cases "monitor_checkboxes q")
      case None
      with nd r have "w2 = ?w1" by simp
      then have "calls w2 = calls ?w1 @ per_monitor (\<not> ?en) []" by (simp add: per_monitor_def)
      then show ?thesis by blast
    next
      case (Some cbs)
      with nd r have "toggle_loop cbs q ?w1 = (e2, w2)" by simp
      from toggle_loop_calls [OF this] show ?thesis by blast
    qed
  qed
  then obtain ns where ns: "calls w2 = calls ?w1 @ per_monitor (\<not> ?en) ns" ..
  show ?thesis
  proof (cases e2)
    case (Some err)
    with assms r have "e = Some err" "w' = w2"
      by (simp_all add: toggle_secondary_monitors_def Let_def)
    with ns w1 show ?thesis
      by (intro exI [of _ ns]) simp
  next
    case None
    let ?w3 = "if ?en then run_display_switch ''/internal'' w2 else w2"
    have w3: "calls ?w3 = calls w2 @ (if ?en then [RunDisplaySwitch ''/internal''] else [])"
      by (simp add: run_display_switch_def)
    from None assms r have e: "e = None"
      by (simp add: toggle_secondary_monitors_def Let_def update_tray_menu_def
          update_tray_icon_def create_monitor_checkboxes_def split: if_splits)
    from None assms r have "w' = (if no_ddcci q then ?w3 else generate_monitors scan ?w3)"
      by (auto simp add: toggle_secondary_monitors_def Let_def update_tray_menu_def
          update_tray_icon_def create_monitor_checkboxes_def split: if_splits)
    then have "calls w' = calls ?w3 @ (if no_ddcci q then [] else [GenerateMonitors scan])"
      by (simp add: generate_monitors_def)
    with w3 ns w1 e show ?thesis
      by (intro exI [of _ ns]) simp
  qed
qed


lemma per_monitor_nth:
  "i < length ns \<Longrightarrow> per_monitor b ns ! i = ToggleMonitors [ns ! i] b"
  by (simp add: per_monitor_def)

lemma length_per_monitor: "length (per_monitor b ns) = length ns"
  by (simp add: per_monitor_def)

lemma toggle_order_parts:
  assumes "toggle_secondary_monitors scan q w = (e, q', w')"
  shows "calls w' = calls w @ new_calls w w'"
    and "\<not> secondary_monitors_enabled q \<Longrightarrow>
           new_calls w w' \<noteq> [] \<and> new_calls w w' ! 0 = RunDisplaySwitch ''/extend'' \<and>
           (\<forall>i < length (new_calls w w'). \<forall>ns b.
              new_calls w w' ! i = ToggleMonitors ns b \<longrightarrow> b \<and> 0 < i)"
    and "secondary_monitors_enabled q \<Longrightarrow>
           (e = None \<longrightarrow> RunDisplaySwitch ''/internal'' \<in> set (new_calls w w')) \<and>
           (\<forall>i < length (new_calls w w'). \<forall>ns b.
              new_calls w w' ! i = ToggleMonitors ns b \<longrightarrow>
                \<not> b \<and> (\<forall>k < length (new_calls w w').
                         new_calls w w' ! k = RunDisplaySwitch ''/internal'' \<longrightarrow> i < k))"
proof -
  let ?en = "secondary_monitors_enabled q"
  define g where "g = (if e = None \<and> \<not> no_ddcci q then [GenerateMonitors scan] else [])"
  from toggle_calls_shape [OF assms] obtain ns where
    shape: "calls w' = calls w
            @ (if ?en then [] else [RunDisplaySwitch ''/extend''])
            @ per_monitor (\<not> ?en) ns
            @ (if ?en \<and> e = None then [RunDisplaySwitch ''/internal''] else [])
            @ g"
    unfolding g_def by blast
  have g: "g = [] \<or> g = [GenerateMonitors scan]"
    by (simp add: g_def)
  have new: "new_calls w w' = (if ?en then [] else [RunDisplaySwitch ''/extend''])
            @ per_monitor (\<not> ?en) ns
            @ (if ?en \<and> e = None then [RunDisplaySwitch ''/internal''] else [])
            @ g"
    by (simp add: new_calls_def shape)
  show "calls w' = calls w @ new_calls w w'"
    by (simp add: new shape)
  {
    assume dis: "\<not> ?en"
    then have n: "new_calls w w' = RunDisplaySwitch ''/extend'' # per_monitor True ns @ g"
      by (simp add: new)
    have "\<forall>i < length (new_calls w w'). \<forall>ms b.
              new_calls w w' ! i = ToggleMonitors ms b \<longrightarrow> b \<and> 0 < i"
    proof (intro allI impI)
      fix i ms b
      assume i: "i < length (new_calls w w')" and c: "new_calls w w' ! i = ToggleMonitors ms b"
      from c n have pos: "0 < i" by (cases i) simp_all
      then obtain j where j: "i = Suc j" by (cases i) simp_all
      with c n have cj: "(per_monitor True ns @ g) ! j = ToggleMonitors ms b" by simp
      have "j < length ns"
      proof (rule ccontr)
        assume "\<not> j < length ns"
        with i j n g cj show False
          by (auto simp: nth_append length_per_monitor)
      qed
      with cj have "b" by (simp add: nth_append length_per_monitor per_monitor_nth)
      with pos show "b \<and> 0 < i" by simp
    qed
    moreover from n have "new_calls w w' \<noteq> []"
      and "new_calls w w' ! 0 = RunDisplaySwitch ''/extend''"
      by simp_all
    ultimately show "new_calls w w' \<noteq> [] \<and> new_calls w w' ! 0 = RunDisplaySwitch ''/extend'' \<and>
           (\<forall>i < length (new_calls w w'). \<forall>ns b.
              new_calls w w' ! i = ToggleMonitors ns b \<longrightarrow> b \<and> 0 < i)"
      by blast
  }
  {
    assume en: "?en"
    let ?tl = "(if e = None then [RunDisplaySwitch ''/internal''] else []) @ g"
    from en have n: "new_calls w w' = per_monitor False ns @ ?tl"
      by (simp add: new)
    have tl: "\<And>j ms b. j < length ?tl \<Longrightarrow> ?tl ! j \<noteq> ToggleMonitors ms b"
      using g by (auto simp: nth_append nth_Cons split: nat.splits)
    have "\<forall>i < length (new_calls w w'). \<forall>ms b.
              new_calls w w' ! i = ToggleMonitors ms b \<longrightarrow>
                \<not> b \<and> (\<forall>k < length (new_calls w w').
                         new_calls w w' ! k = RunDisplaySwitch ''/internal'' \<longrightarrow> i < k)"
    proof (intro allI impI)
      fix i ms b
      assume i: "i < length (new_calls w w')" and c: "new_calls w w' ! i = ToggleMonitors ms b"
      have il: "i < length ns"
      proof (rule ccontr)
        assume ni: "\<not> i < length ns"
        with i n have "i - length ns < length ?tl"
          by (simp add: length_per_monitor)
        from tl [OF this] ni c n show False
          by (simp add: nth_append length_per_monitor)
      qed
      with c n have nb: "\<not> b" by (simp add: nth_append length_per_monitor per_monitor_nth)
      have "\<forall>k < length (new_calls w w').
                         new_calls w w' ! k = RunDisplaySwitch ''/internal'' \<longrightarrow> i < k"
      proof (intro allI impI)
        fix k
        assume "k < length (new_calls w w')" and ck: "new_calls w w' ! k = RunDisplaySwitch ''/internal''"
        have "\<not> k < length ns"
        proof
          assume "k < length ns"
          with ck n show False by (simp add: nth_append length_per_monitor per_monitor_nth)
        qed
        with il show "i < k" by simp
      qed
      with nb show "\<not> b \<and> (\<forall>k < length (new_calls w w').
                         new_calls w w' ! k = RunDisplaySwitch ''/internal'' \<longrightarrow> i < k)"
        by simp
    qed
    moreover have "e = None \<longrightarrow> RunDisplaySwitch ''/internal'' \<in> set (new_calls w w')"
      using n by simp
    ultimately show "(e = None \<longrightarrow> RunDisplaySwitch ''/internal'' \<in> set (new_calls w w')) \<and>
           (\<forall>i < length (new_calls w w'). \<forall>ns b.
              new_calls w w' ! i = ToggleMonitors ns b \<longrightarrow>
                \<not> b \<and> (\<forall>k < length (new_calls w w').
                         new_calls w w' ! k = RunDisplaySwitch ''/internal'' \<longrightarrow> i < k))"
      by blast
  }
qed

text \<open>
  C1. In every invocation of \<^verbatim>\<open>toggle_secondary_monitors\<close>, whether it returns or
  raises, the calls it makes extend the calls made before. When the secondary monitors
  are disabled, the first call is \<^verbatim>\<open>run_display_switch("/extend")\<close>, and every
  \<^verbatim>\<open>toggle_monitors\<close> call is an enable that comes after it. When they are enabled,
  every \<^verbatim>\<open>toggle_monitors\<close> call is a disable that comes before any
  \<^verbatim>\<open>run_display_switch("/internal")\<close>, and that call is made when the toggle returns.
\<close>

theorem toggle_order:
  assumes "toggle_secondary_monitors scan q w = (e, q', w')"
  shows "calls w' = calls w @ new_calls w w' \<and>
    (if secondary_monitors_enabled q
     then (e = None \<longrightarrow> RunDisplaySwitch ''/internal'' \<in> set (new_calls w w')) \<and>
          (\<forall>i < length (new_calls w w'). \<forall>ns b.
             new_calls w w' ! i = ToggleMonitors ns b \<longrightarrow>
               \<not> b \<and> (\<forall>k < length (new_calls w w').
                        new_calls w w' ! k = RunDisplaySwitch ''/internal'' \<longrightarrow> i < k))
     else new_calls w w' \<noteq> [] \<and> new_calls w w' ! 0 = RunDisplaySwitch ''/extend'' \<and>
          (\<forall>i < length (new_calls w w'). \<forall>ns b.
             new_calls w w' ! i = ToggleMonitors ns b \<longrightarrow> b \<and> 0 < i))"
proof (cases "secondary_monitors_enabled q")
  case True
  show ?thesis
    unfolding if_P [OF True]
    using toggle_order_parts(1) [OF assms] toggle_order_parts(3) [OF assms True]
    by (rule conjI)
next
  case False
  show ?thesis
    unfolding if_not_P [OF False]
    using toggle_order_parts(1) [OF assms] toggle_order_parts(2) [OF assms False]
    by (rule conjI)
qed

theorem toggle_order_witness:
  "toggle_secondary_monitors [monitor1] (one_box False True) first_start
     = (None, (one_box True False)\<lparr>settings := JObj []\<rparr>,
        \<lparr>settings_file = None,
         calls = [RunDisplaySwitch ''/extend'', ToggleMonitors [''Monitor1''] True,
                  GenerateMonitors [monitor1]]\<rparr>)
   \<and> new_calls first_start
        \<lparr>settings_file = None,
         calls = [RunDisplaySwitch ''/extend'', ToggleMonitors [''Monitor1''] True,
                  GenerateMonitors [monitor1]]\<rparr> ! 0 = RunDisplaySwitch ''/extend''"
proof -
  have run: "toggle_secondary_monitors [monitor1] (one_box False True) first_start
     = (None, (one_box True False)\<lparr>settings := JObj []\<rparr>,
        \<lparr>settings_file = None,
         calls = [RunDisplaySwitch ''/extend'', ToggleMonitors [''Monitor1''] True,
                  GenerateMonitors [monitor1]]\<rparr>)"
    by (simp add: operation_defs example_defs Let_def)
  from toggle_order [OF run] have
    "new_calls first_start
        \<lparr>settings_file = None,
         calls = [RunDisplaySwitch ''/extend'', ToggleMonitors [''Monitor1''] True,
                  GenerateMonitors [monitor1]]\<rparr> ! 0 = RunDisplaySwitch ''/extend''"
    by (simp add: one_box_def)
  with run show ?thesis by simp
qed

section \<open>Saving on a checkbox change\<close>

lemma keys_set_box: "map fst (set_box n b cbs) = map fst cbs"
  by (induction cbs) (auto simp: set_box_def)

lemma set_box_absent: "n \<notin> set (map fst cbs) \<Longrightarrow> set_box n b cbs = cbs"
  by (induction cbs) (auto simp: set_box_def)

lemma check_only_box:
  assumes "distinct (map fst cbs)" and "checked_names cbs = []" and "map_of cbs n = Some c"
  shows "checked_names (set_box n True cbs) = [n]"
  using assms
proof (induction cbs)
  case Nil
  then show ?case by simp
next
  case (Cons p cbs)
  obtain k d where p: "p = (k, d)" by (cases p)
  from Cons.prems(2) p have d: "\<not> d" and rest: "checked_names cbs = []"
    by (auto simp: checked_names_def split: if_splits)
  show ?case
  proof (cases "k = n")
    case True
    with Cons.prems(1) p have "n \<notin> set (map fst cbs)" by simp
    then have "set_box n True cbs = cbs" by (rule set_box_absent)
    with True p rest show ?thesis
      by (simp add: set_box_def checked_names_def)
  next
    case False
    with Cons.prems p have "checked_names (set_box n True cbs) = [n]"
      by (intro Cons.IH) (simp_all add: rest)
    with False p d show ?thesis
      by (simp add: set_box_def checked_names_def)
  qed
qed

lemma setChecked_change:
  assumes "monitor_checkboxes q = Some cbs" and "map_of cbs n = Some c" and "b \<noteq> c"
  shows "setChecked n b q w =
           (None,
            q\<lparr>monitor_checkboxes := Some (set_box n b cbs),
              settings := settings_doc (checked_names (set_box n b cbs))\<rparr>,
            w\<lparr>settings_file := Some (JsonText (settings_doc (checked_names (set_box n b cbs))))\<rparr>)"
  using assms by (auto simp: setChecked_def save_settings_def Let_def)

lemma map_of_set_box:
  "map_of (set_box n b cbs) k
     = (if k = n then map_option (\<lambda>_. b) (map_of cbs k) else map_of cbs k)"
  by (induction cbs) (auto simp: set_box_def)

lemma checked_names_by_lookup:
  "distinct (map fst cbs) \<Longrightarrow>
     checked_names cbs = filter (\<lambda>k. map_of cbs k = Some True) (map fst cbs)"
proof (induction cbs)
  case Nil
  then show ?case by (simp add: checked_names_def)
next
  case (Cons p cbs)
  obtain k c where p: "p = (k, c)" by (cases p)
  with Cons.prems have fresh: "k \<notin> set (map fst cbs)" and rest: "distinct (map fst cbs)"
    by simp_all
  have "filter (\<lambda>x. map_of ((k, c) # cbs) x = Some True) (map fst cbs)
          = filter (\<lambda>x. map_of cbs x = Some True) (map fst cbs)"
    using fresh by (intro filter_cong) auto
  with Cons.IH [OF rest] p show ?case
    by (simp add: checked_names_def)
qed

lemma filter_only:
  "distinct xs \<Longrightarrow> n \<in> set xs \<Longrightarrow> filter (\<lambda>k. k = n) xs = [n]"
proof (induction xs)
  case Nil
  then show ?case by simp
next
  case (Cons x xs)
  show ?case
  proof (cases "x = n")
    case True
    with Cons.prems(1) have "filter (\<lambda>k. k = n) xs = []"
      by (auto simp: filter_empty_conv)
    with True show ?thesis by simp
  next
    case False
    with Cons show ?thesis by simp
  qed
qed

text \<open>
  C9. A checkbox whose state changes (by the user or by the program) runs
  \<^verbatim>\<open>save_settings\<close> at once, with no further step and no exception. Only the changed
  box has a new state. \<^verbatim>\<open>self.settings\<close> and the settings file become the document
  whose single entry \<^verbatim>\<open>secondary_monitors\<close> lists, in the order of the dictionary,
  exactly the names whose box is checked after the change; nothing else changes. When no
  box was checked before, the file then holds \<^verbatim>\<open>{"secondary_monitors": [n]}\<close> for
  the name \<open>n\<close> of the checkbox, as for \<^verbatim>\<open>"Monitor1"\<close>.
\<close>

theorem checkbox_change_persists:
  assumes "monitor_checkboxes q = Some cbs" and "distinct (map fst cbs)"
    and "map_of cbs n = Some c" and "b \<noteq> c"
  shows "\<exists>cbs'.
      setChecked n b q w
        = (None,
           q\<lparr>monitor_checkboxes := Some cbs',
             settings := JObj [(''secondary_monitors'',
               JArr (map JStr (filter (\<lambda>k. map_of cbs' k = Some True) (map fst cbs'))))]\<rparr>,
           w\<lparr>settings_file := Some (JsonText (JObj [(''secondary_monitors'',
               JArr (map JStr (filter (\<lambda>k. map_of cbs' k = Some True) (map fst cbs'))))]))\<rparr>)
      \<and> map fst cbs' = map fst cbs
      \<and> map_of cbs' n = Some b
      \<and> (\<forall>k. k \<noteq> n \<longrightarrow> map_of cbs' k = map_of cbs k)
      \<and> ((\<forall>k. map_of cbs k \<noteq> Some True) \<longrightarrow>
            settings_file (world_of (setChecked n b q w))
              = Some (JsonText (JObj [(''secondary_monitors'', JArr [JStr n])])))"
proof -
  let ?cbs' = "set_box n b cbs"
  let ?names = "filter (\<lambda>k. map_of ?cbs' k = Some True) (map fst ?cbs')"
  have keys: "map fst ?cbs' = map fst cbs"
    by (rule keys_set_box)
  with assms(2) have "checked_names ?cbs' = ?names"
    by (simp add: checked_names_by_lookup)
  with setChecked_change [OF assms(1,3,4), of w]
  have run: "setChecked n b q w
        = (None,
           q\<lparr>monitor_checkboxes := Some ?cbs',
             settings := JObj [(''secondary_monitors'', JArr (map JStr ?names))]\<rparr>,
           w\<lparr>settings_file :=
               Some (JsonText (JObj [(''secondary_monitors'', JArr (map JStr ?names))]))\<rparr>)"
    by (simp add: settings_doc_def)
  have changed: "map_of ?cbs' n = Some b"
    using assms(3) by (simp add: map_of_set_box)
  have others: "\<forall>k. k \<noteq> n \<longrightarrow> map_of ?cbs' k = map_of cbs k"
    by (simp add: map_of_set_box)
  have only: "settings_file (world_of (setChecked n b q w))
              = Some (JsonText (JObj [(''secondary_monitors'', JArr [JStr n])]))"
    if none: "\<forall>k. map_of cbs k \<noteq> Some True"
  proof -
    from none assms(3) have "\<not> c" by auto
    with assms(4) have b by auto
    have "(map_of ?cbs' k = Some True) = (k = n)" for k
    proof (cases "k = n")
      case True
      with changed \<open>b\<close> show ?thesis by simp
    next
      case False
      with others none show ?thesis by simp
    qed
    then have "?names = filter (\<lambda>k. k = n) (map fst cbs)"
      by (simp add: keys)
    also have "\<dots> = [n]"
    proof (rule filter_only [OF assms(2)])
      from assms(3) show "n \<in> set (map fst cbs)"
        by (auto dest: map_of_SomeD intro: rev_image_eqI)
    qed
    finally have "?names = [n]" .
    with run show ?thesis by (simp add: world_of_def)
  qed
  from run keys changed others only show ?thesis by blast
qed

theorem checkbox_change_persists_witness:
  "monitor_checkboxes (two_boxes False False) = Some [(''Monitor1'', False), (''Monitor2'', False)]
   \<and> settings_file (world_of (setChecked ''Monitor1'' True (two_boxes False False) first_start))
       = Some (JsonText (JObj [(''secondary_monitors'', JArr [JStr ''Monitor1''])]))
   \<and> settings_file (world_of (setChecked ''Monitor1'' True (two_boxes False True) first_start))
       = Some (JsonText (JObj [(''secondary_monitors'',
                                JArr [JStr ''Monitor1'', JStr ''Monitor2''])]))
   \<and> settings_file (world_of (setChecked ''Monitor1'' False (two_boxes True True) first_start))
       = Some (JsonText (JObj [(''secondary_monitors'', JArr [JStr ''Monitor2''])]))"
proof -
  have boxes: "monitor_checkboxes (two_boxes False False)
                 = Some [(''Monitor1'', False), (''Monitor2'', False)]"
    by (simp add: two_boxes_def)
  have keys: "distinct (map fst [(''Monitor1'', False), (''Monitor2'', False)])"
    by simp
  have box: "map_of [(''Monitor1'', False), (''Monitor2'', False)] ''Monitor1'' = Some False"
    by simp
  have change: "True \<noteq> False"
    by simp
  have none: "\<forall>k. map_of [(''Monitor1'', False), (''Monitor2'', False)] k \<noteq> Some True"
    by simp
  from checkbox_change_persists [OF boxes keys box change, of first_start] none
  have first: "settings_file (world_of (setChecked ''Monitor1'' True (two_boxes False False) first_start))
       = Some (JsonText (JObj [(''secondary_monitors'', JArr [JStr ''Monitor1''])]))"
    by blast
  have "settings_file (world_of (setChecked ''Monitor1'' True (two_boxes False True) first_start))
       = Some (JsonText (JObj [(''secondary_monitors'',
                                JArr [JStr ''Monitor1'', JStr ''Monitor2''])]))"
    and "settings_file (world_of (setChecked ''Monitor1'' False (two_boxes True True) first_start))
       = Some (JsonText (JObj [(''secondary_monitors'', JArr [JStr ''Monitor2''])]))"
    by (simp_all add: operation_defs example_defs outcome_defs Let_def)
  with first boxes show ?thesis by simp
qed

text \<open>
  C10. \<^verbatim>\<open>save_settings\<close> replaces the whole document: whatever the settings file held
  before, after \<^verbatim>\<open>save_settings\<close>, and so after any checkbox state change, its only
  top-level key is \<^verbatim>\<open>secondary_monitors\<close>.
\<close>

theorem save_replaces_document:
  assumes "monitor_checkboxes q = Some cbs"
  shows "file_keys (settings_file (world_of (save_settings q w))) = [''secondary_monitors'']
     \<and> (map_of cbs n = Some c \<and> b \<noteq> c \<longrightarrow>
          file_keys (settings_file (world_of (setChecked n b q w))) = [''secondary_monitors''])"
proof -
  have "file_keys (settings_file (world_of (save_settings q w))) = [''secondary_monitors'']"
    using assms by (simp add: save_settings_def Let_def world_of_def settings_doc_def)
  moreover have "file_keys (settings_file (world_of (setChecked n b q w))) = [''secondary_monitors'']"
    if "map_of cbs n = Some c" and "b \<noteq> c"
    using setChecked_change [OF assms that, of w]
    by (simp add: world_of_def settings_doc_def)
  ultimately show ?thesis by blast
qed

theorem save_replaces_document_witness:
  "file_keys (settings_file extra_key_file) = [''secondary_monitors'', ''theme'']
   \<and> file_keys (settings_file
        (world_of (setChecked ''Monitor1'' True (one_box False False) extra_key_file)))
       = [''secondary_monitors'']"
proof -
  have box: "monitor_checkboxes (one_box False False) = Some [(''Monitor1'', False)]"
    by (simp add: one_box_def)
  from save_replaces_document [OF box, of extra_key_file "''Monitor1''" False True]
  have "file_keys (settings_file
        (world_of (setChecked ''Monitor1'' True (one_box False False) extra_key_file)))
       = [''secondary_monitors'']"
    by simp
  then show ?thesis by (simp add: extra_key_file_def)
qed

section \<open>Starting the application\<close>

lemma load_settings_absent:
  "settings_file w = None \<Longrightarrow> load_settings q w = (None, q\<lparr>first_run := True\<rparr>, w)"
  by (simp add: load_settings_def)

lemma load_settings_not_json:
  "settings_file w = Some NotJson \<Longrightarrow> load_settings q w = (Some JSONDecodeError, q, w)"
  by (simp add: load_settings_def)

lemma load_settings_not_text:
  "settings_file w = Some NotText \<Longrightarrow> load_settings q w = (Some UnicodeDecodeError, q, w)"
  by (simp add: load_settings_def)

lemma settings_file_generate_monitors [simp]:
  "settings_file (generate_monitors scan w) = settings_file w"
  by (simp add: generate_monitors_def)




text \<open>
  C6, as the code has it. When the settings file does not exist, \<^verbatim>\<open>load_settings\<close>
  sets \<^verbatim>\<open>first_run\<close> and raises nothing, the main program does not end with an
  exception, and it shows the main window. The file is not created.
\<close>

theorem first_run_shows_window:
  assumes "settings_file w = None"
  shows "load_settings q w = (None, q\<lparr>first_run := True\<rparr>, w)
     \<and> raised (main nd scan1 scan2 w) = None
     \<and> first_run (state_of (main nd scan1 scan2 w))
     \<and> visible (state_of (main nd scan1 scan2 w))
     \<and> settings_file (world_of (main nd scan1 scan2 w)) = None"
  using assms
  by (cases nd)
    (simp_all add: QMS_init_def main_def Let_def load_settings_def
      create_monitor_checkboxes_def generate_monitors_def raised_def state_of_def world_of_def
      update_tray_icon_def update_tray_menu_def)

theorem first_run_shows_window_witness:
  "settings_file first_start = None
   \<and> raised (main False [monitor1] [monitor1] first_start) = None
   \<and> first_run (state_of (main False [monitor1] [monitor1] first_start))
   \<and> visible (state_of (main False [monitor1] [monitor1] first_start))"
proof -
  have fl: "settings_file first_start = None"
    by (simp add: first_start_def)
  from first_run_shows_window [OF fl] fl show ?thesis by blast
qed

text \<open>
  C6, as the claim states it, fails: started without a settings file, the main window is
  shown, not hidden.
\<close>

theorem first_run_hidden_counterexample:
  "settings_file first_start = None
   \<and> main False [monitor1] [monitor1] first_start
       = (None,
          \<lparr>no_ddcci = False, monitors = [monitor1],
           monitor_checkboxes = Some [(''Monitor1'', False)], settings = JObj [],
           first_run = True, secondary_monitors_enabled = True,
           tray_variant = ''primary'', tray_action = ''Disable secondary monitors'',
           visible = True\<rparr>,
          \<lparr>settings_file = None,
           calls = [GenerateMonitors [monitor1], GenerateMonitors [monitor1]]\<rparr>)"
  by (simp add: operation_defs example_defs Let_def)

section \<open>The flag \<^verbatim>\<open>secondary_monitors_enabled\<close>\<close>

lemma setChecked_fields:
  "secondary_monitors_enabled (state_of (setChecked n b q w)) = secondary_monitors_enabled q
   \<and> monitors (state_of (setChecked n b q w)) = monitors q
   \<and> no_ddcci (state_of (setChecked n b q w)) = no_ddcci q
   \<and> calls (world_of (setChecked n b q w)) = calls w
   \<and> map_option (map fst) (monitor_checkboxes (state_of (setChecked n b q w)))
        = map_option (map fst) (monitor_checkboxes q)"
  by (simp add: setChecked_def save_settings_def Let_def state_of_def world_of_def
      keys_set_box split: option.splits)

lemma load_loop_fields:
  "secondary_monitors_enabled (state_of (load_loop ns q w)) = secondary_monitors_enabled q
   \<and> monitors (state_of (load_loop ns q w)) = monitors q
   \<and> no_ddcci (state_of (load_loop ns q w)) = no_ddcci q
   \<and> calls (world_of (load_loop ns q w)) = calls w
   \<and> map_option (map fst) (monitor_checkboxes (state_of (load_loop ns q w)))
        = map_option (map fst) (monitor_checkboxes q)"
proof (induction ns arbitrary: q w)
  case Nil
  then show ?case by (simp add: state_of_def world_of_def)
next
  case (Cons n ns)
  show ?case
  proof (cases "settings_get (settings q)")
    case (Inl e)
    then show ?thesis by (simp add: state_of_def world_of_def)
  next
    case (Inr v)
    show ?thesis
    proof (cases "py_in n v")
      case (Inl e)
      with Inr show ?thesis by (simp add: state_of_def world_of_def)
    next
      case b: (Inr b)
      obtain e q1 w1 where sc: "setChecked n b q w = (e, q1, w1)"
        by (cases "setChecked n b q w")
      with setChecked_fields [of n b q w]
      have same: "secondary_monitors_enabled q1 = secondary_monitors_enabled q"
        "monitors q1 = monitors q" "no_ddcci q1 = no_ddcci q" "calls w1 = calls w"
        "map_option (map fst) (monitor_checkboxes q1) = map_option (map fst) (monitor_checkboxes q)"
        by (simp_all add: state_of_def world_of_def)
      show ?thesis
      proof (cases e)
        case None
        with Inr b sc have "load_loop (n # ns) q w = load_loop ns q1 w1" by simp
        with Cons.IH [of q1 w1] same show ?thesis by simp
      next
        case (Some err)
        with Inr b sc have "load_loop (n # ns) q w = (Some err, q1, w1)" by simp
        with same show ?thesis by (simp add: state_of_def world_of_def)
      qed
    qed
  qed
qed

lemma load_settings_fields:
  "secondary_monitors_enabled (state_of (load_settings q w)) = secondary_monitors_enabled q
   \<and> monitors (state_of (load_settings q w)) = monitors q
   \<and> no_ddcci (state_of (load_settings q w)) = no_ddcci q
   \<and> calls (world_of (load_settings q w)) = calls w
   \<and> map_option (map fst) (monitor_checkboxes (state_of (load_settings q w)))
        = map_option (map fst) (monitor_checkboxes q)"
proof (cases "settings_file w")
  case None
  then show ?thesis by (simp add: load_settings_def state_of_def world_of_def)
next
  case (Some f)
  show ?thesis
  proof (cases f)
    case NotJson
    with Some show ?thesis by (simp add: load_settings_def state_of_def world_of_def)
  next
    case NotText
    with Some show ?thesis by (simp add: load_settings_def state_of_def world_of_def)
  next
    case (JsonText doc)
    show ?thesis
    proof (cases "monitor_checkboxes q")
      case None
      with Some JsonText show ?thesis
        by (simp add: load_settings_def state_of_def world_of_def)
    next
      case cbs: (Some cbs)
      obtain e q2 w2 where l: "load_loop (map fst cbs) (q\<lparr>settings := doc\<rparr>) w = (e, q2, w2)"
        by (cases "load_loop (map fst cbs) (q\<lparr>settings := doc\<rparr>) w")
      with load_loop_fields [of "map fst cbs" "q\<lparr>settings := doc\<rparr>" w]
      have same: "secondary_monitors_enabled q2 = secondary_monitors_enabled q"
        "monitors q2 = monitors q" "no_ddcci q2 = no_ddcci q" "calls w2 = calls w"
        "map_option (map fst) (monitor_checkboxes q2) = map_option (map fst) (monitor_checkboxes q)"
        by (simp_all add: state_of_def world_of_def)
      have "load_settings q w = (if e = Some AttributeError then None else e, q2, w2)"
        using Some JsonText cbs l
        by (cases e) (auto simp: load_settings_def Let_def split: error.splits)
      with same show ?thesis by (simp add: state_of_def world_of_def)
    qed
  qed
qed

lemma QMS_init_flag:
  "secondary_monitors_enabled (state_of (QMS_init nd scan1 scan2 w))
     = get_active_monitors (state_of (QMS_init nd scan1 scan2 w))"
proof -
  obtain q4 w1 where init: "QMS_init nd scan1 scan2 w = load_settings q4 w1"
    and flag: "secondary_monitors_enabled q4 = get_active_monitors q4"
    by (cases nd)
      (simp_all add: QMS_init_def Let_def create_monitor_checkboxes_def
        update_tray_icon_def update_tray_menu_def get_active_monitors_def)
  from load_settings_fields [of q4 w1] flag init show ?thesis
    by (simp add: get_active_monitors_def)
qed

lemma toggle_flips:
  assumes "toggle_secondary_monitors scan q w = (None, q', w')"
  shows "secondary_monitors_enabled q' = (\<not> secondary_monitors_enabled q)"
  using assms
  by (auto simp: toggle_secondary_monitors_def Let_def create_monitor_checkboxes_def
      update_tray_icon_def update_tray_menu_def split: if_splits option.splits prod.splits)

text \<open>
  C7, as the code has it. \<^verbatim>\<open>secondary_monitors_enabled\<close> is computed from
  \<^verbatim>\<open>get_active_monitors\<close> once, when the object is constructed. After that it is a
  stored flag: a toggle that returns negates it, and a rescan or a checkbox change leaves
  it as it is, whatever the new monitor list says.
\<close>

theorem flag_is_stored:
  "secondary_monitors_enabled (state_of (QMS_init nd scan1 scan2 w0))
     = get_active_monitors (state_of (QMS_init nd scan1 scan2 w0))
   \<and> (toggle_secondary_monitors scan q w = (None, q', w') \<longrightarrow>
        secondary_monitors_enabled q' = (\<not> secondary_monitors_enabled q))
   \<and> secondary_monitors_enabled (fst (create_monitor_checkboxes scan q w))
        = secondary_monitors_enabled q
   \<and> monitors (fst (create_monitor_checkboxes scan q w)) = scan
   \<and> secondary_monitors_enabled (state_of (setChecked n b q w)) = secondary_monitors_enabled q"
  using QMS_init_flag [of nd scan1 scan2 w0] toggle_flips [of scan q w q' w']
    setChecked_fields [of n b q w]
  by (simp add: create_monitor_checkboxes_def)

theorem flag_is_stored_witness:
  "toggle_secondary_monitors [monitor1] (one_box True False) first_start
     = (None, (one_box False False),
        \<lparr>settings_file = None,
         calls = [RunDisplaySwitch ''/internal'', GenerateMonitors [monitor1]]\<rparr>)
   \<and> secondary_monitors_enabled (one_box True False)
   \<and> \<not> secondary_monitors_enabled (one_box False False)"
proof -
  have run: "toggle_secondary_monitors [monitor1] (one_box True False) first_start
     = (None, (one_box False False),
        \<lparr>settings_file = None,
         calls = [RunDisplaySwitch ''/internal'', GenerateMonitors [monitor1]]\<rparr>)"
    by (simp add: operation_defs example_defs Let_def)
  from flag_is_stored [of False "[]" "[]" first_start "[monitor1]" "one_box True False"
      first_start "one_box False False" _ "''Monitor1''" False] run
  have "secondary_monitors_enabled (one_box False False)
          = (\<not> secondary_monitors_enabled (one_box True False))"
    by blast
  moreover have "secondary_monitors_enabled (one_box True False)"
    by (simp add: one_box_def)
  ultimately show ?thesis using run by simp
qed

text \<open>
  C7, as the claim states it, fails. The application starts with an inactive monitor, so
  the flag is false; a rescan then finds the monitor active, and the flag stays false
  while \<^verbatim>\<open>get_active_monitors\<close> is true. A toggle with an unchanged monitor list
  also leaves the two different.
\<close>

theorem flag_recomputed_counterexample:
  "\<not> secondary_monitors_enabled
       (state_of (run_from [Rescan [monitor1]]
          (main False [monitor1_off] [monitor1_off] first_start)))
   \<and> get_active_monitors
       (state_of (run_from [Rescan [monitor1]]
          (main False [monitor1_off] [monitor1_off] first_start)))
   \<and> \<not> secondary_monitors_enabled
       (state_of (run_from [Toggle [monitor1]]
          (main False [monitor1] [monitor1] first_start)))
   \<and> get_active_monitors
       (state_of (run_from [Toggle [monitor1]]
          (main False [monitor1] [monitor1] first_start)))"
  by (simp add: operation_defs example_defs outcome_defs run_from_def Let_def)

section \<open>The names written to the settings file\<close>

lemma last_scan_append:
  "last_scan (cs @ ds) = (case last_scan ds of Some s \<Rightarrow> Some s | None \<Rightarrow> last_scan cs)"
  by (induction cs) (auto split: option.splits)

lemma last_scan_snoc:
  "last_scan (cs @ [c]) = (case c of GenerateMonitors s \<Rightarrow> Some s | _ \<Rightarrow> last_scan cs)"
  by (simp add: last_scan_append split: call.splits)

lemma last_scan_per_monitor: "last_scan (per_monitor b ns) = None"
  by (induction ns) (simp_all add: per_monitor_def)

lemma checkbox_loop_keys:
  "set (map fst (checkbox_loop ms cbs)) = set (map fst cbs) \<union> selectable_names ms"
proof (induction ms arbitrary: cbs)
  case Nil
  then show ?case by (simp add: selectable_names_def)
next
  case (Cons m ms)
  have "set (map fst (AList.update (mon_1 m) False cbs)) = insert (mon_1 m) (set (map fst cbs))"
    using AList.dom_update [of "mon_1 m" False cbs] by simp
  with Cons [of "AList.update (mon_1 m) False cbs"] Cons [of cbs] show ?case
    by (auto simp: selectable_names_def)
qed

lemma checkbox_loop_distinct:
  "distinct (map fst cbs) \<Longrightarrow> distinct (map fst (checkbox_loop ms cbs))"
  by (induction ms arbitrary: cbs) (simp_all add: AList.distinct_update)

lemma update_unchecked:
  "checked_names cbs = [] \<Longrightarrow> checked_names (AList.update k False cbs) = []"
  by (induction cbs) (auto simp: checked_names_def split: if_splits)

lemma checkbox_loop_unchecked:
  "checked_names cbs = [] \<Longrightarrow> checked_names (checkbox_loop ms cbs) = []"
  by (induction ms arbitrary: cbs) (simp_all add: update_unchecked)

lemma checkbox_loop_keys_image:
  "fst ` set (checkbox_loop ms cbs) = fst ` set cbs \<union> selectable_names ms"
  using checkbox_loop_keys [of ms cbs] by simp

lemma create_boxes_from_scan:
  "create_monitor_checkboxes scan q w = (q', w') \<Longrightarrow> boxes_from_scan q' w'"
  by (auto simp: create_monitor_checkboxes_def boxes_from_scan_def generate_monitors_def
      last_scan_snoc checkbox_loop_keys_image checkbox_loop_distinct)

lemma boxes_from_scan_frame:
  assumes "boxes_from_scan q w"
    and "monitors q' = monitors q" and "last_scan (calls w') = last_scan (calls w)"
    and "map_option (map fst) (monitor_checkboxes q') = map_option (map fst) (monitor_checkboxes q)"
  shows "boxes_from_scan q' w'"
proof (cases "monitor_checkboxes q'")
  case None
  then show ?thesis by (simp add: boxes_from_scan_def)
next
  case (Some cbs')
  with assms(4) obtain cbs where cbs: "monitor_checkboxes q = Some cbs" "map fst cbs' = map fst cbs"
    by (cases "monitor_checkboxes q") auto
  from assms(1) cbs(1) have "last_scan (calls w) = Some (monitors q)"
    and "set (map fst cbs) \<subseteq> selectable_names (monitors q)" and "distinct (map fst cbs)"
    by (simp_all add: boxes_from_scan_def)
  with assms(2,3) cbs(2) Some show ?thesis
    by (simp add: boxes_from_scan_def del: set_map)
qed

lemma setChecked_boxes:
  assumes "boxes_from_scan q w" and "setChecked n b q w = (e, q', w')"
  shows "boxes_from_scan q' w'"
proof -
  from setChecked_fields [of n b q w] assms(2)
  have "monitors q' = monitors q" and "calls w' = calls w"
    and "map_option (map fst) (monitor_checkboxes q') = map_option (map fst) (monitor_checkboxes q)"
    by (simp_all add: state_of_def world_of_def)
  with assms(1) show ?thesis
    by (auto intro: boxes_from_scan_frame [of q w q' w'])
qed

lemma load_settings_boxes:
  assumes "boxes_from_scan q w" and "load_settings q w = (e, q', w')"
  shows "boxes_from_scan q' w'"
proof -
  from load_settings_fields [of q w] assms(2)
  have "monitors q' = monitors q" and "calls w' = calls w"
    and "map_option (map fst) (monitor_checkboxes q') = map_option (map fst) (monitor_checkboxes q)"
    by (simp_all add: state_of_def world_of_def)
  with assms(1) show ?thesis
    by (auto intro: boxes_from_scan_frame [of q w q' w'])
qed

lemma toggle_state:
  assumes "toggle_secondary_monitors scan q w = (e, q', w')"
  shows "(e \<noteq> None \<longrightarrow> q' = q)
     \<and> (e = None \<and> no_ddcci q \<longrightarrow>
          monitors q' = monitors q \<and> monitor_checkboxes q' = monitor_checkboxes q)
     \<and> (e = None \<and> \<not> no_ddcci q \<longrightarrow>
          monitors q' = scan \<and> monitor_checkboxes q' = Some (checkbox_loop scan []))"
  using assms
  by (auto simp: toggle_secondary_monitors_def Let_def create_monitor_checkboxes_def
      update_tray_icon_def update_tray_menu_def split: if_splits option.splits prod.splits)

lemma toggle_last_scan:
  assumes "toggle_secondary_monitors scan q w = (e, q', w')"
  shows "last_scan (calls w')
           = (if e = None \<and> \<not> no_ddcci q then Some scan else last_scan (calls w))"
proof -
  from toggle_calls_shape [OF assms] obtain ns where
    "calls w' = calls w
        @ (if secondary_monitors_enabled q then [] else [RunDisplaySwitch ''/extend''])
        @ per_monitor (\<not> secondary_monitors_enabled q) ns
        @ (if secondary_monitors_enabled q \<and> e = None then [RunDisplaySwitch ''/internal'']
           else [])
        @ (if e = None \<and> \<not> no_ddcci q then [GenerateMonitors scan] else [])"
    by blast
  then show ?thesis
    by (simp add: last_scan_append last_scan_per_monitor)
qed

lemma toggle_boxes:
  assumes "boxes_from_scan q w" and "toggle_secondary_monitors scan q w = (e, q', w')"
  shows "boxes_from_scan q' w'"
proof (cases "e = None \<and> \<not> no_ddcci q")
  case True
  with toggle_state [OF assms(2)] toggle_last_scan [OF assms(2)] show ?thesis
    by (simp add: boxes_from_scan_def checkbox_loop_keys_image checkbox_loop_distinct)
next
  case False
  with toggle_state [OF assms(2)] toggle_last_scan [OF assms(2)]
  have "monitors q' = monitors q" "last_scan (calls w') = last_scan (calls w)"
    "monitor_checkboxes q' = monitor_checkboxes q"
    by auto
  with assms(1) show ?thesis
    by (auto intro: boxes_from_scan_frame [of q w q' w'])
qed

lemma step_boxes:
  "boxes_from_scan q w \<Longrightarrow> step a q w = (e, q', w') \<Longrightarrow> boxes_from_scan q' w'"
proof (cases a)
  case (Click n)
  assume "boxes_from_scan q w" "step a q w = (e, q', w')"
  with Click show ?thesis
    by (auto simp: click_def split: option.splits dest: setChecked_boxes)
next
  case (Rescan scan)
  assume "step a q w = (e, q', w')"
  with Rescan show ?thesis
    by (auto split: prod.splits dest: create_boxes_from_scan)
next
  case (Toggle scan)
  assume "boxes_from_scan q w" "step a q w = (e, q', w')"
  with Toggle show ?thesis
    by (auto dest: toggle_boxes)
qed

lemma run_boxes:
  "boxes_from_scan q w \<Longrightarrow> run as q w = (e, q', w') \<Longrightarrow> boxes_from_scan q' w'"
proof (induction as arbitrary: q w)
  case Nil
  then show ?case by simp
next
  case (Cons a as)
  obtain e1 q1 w1 where st: "step a q w = (e1, q1, w1)"
    by (cases "step a q w")
  with Cons.prems(1) have inv1: "boxes_from_scan q1 w1"
    by (rule step_boxes)
  show ?case
  proof (cases e1)
    case None
    with st Cons.prems(2) have "run as q1 w1 = (e, q', w')" by simp
    with inv1 show ?thesis by (rule Cons.IH)
  next
    case (Some err)
    with st Cons.prems(2) inv1 show ?thesis by simp
  qed
qed

lemma QMS_init_as_load:
  "\<exists>q4 w1. QMS_init nd scan1 scan2 w = load_settings q4 w1
      \<and> boxes_from_scan q4 w1 \<and> settings_file w1 = settings_file w
      \<and> (case monitor_checkboxes q4 of None \<Rightarrow> True | Some cbs \<Rightarrow> checked_names cbs = [])"
proof -
  define q0 where "q0 = \<lparr>no_ddcci = nd, monitors = scan1, monitor_checkboxes = None,
    settings = JObj [], first_run = False, secondary_monitors_enabled = False,
    tray_variant = [], tray_action = [], visible = False\<rparr>"
  define p where "p = (if \<not> nd then create_monitor_checkboxes scan2 q0 (generate_monitors scan1 w)
                       else (q0, generate_monitors scan1 w))"
  define q2 where "q2 = (fst p)\<lparr>settings := JObj [], first_run := False\<rparr>"
  define q4 where "q4 = update_tray_menu (update_tray_icon
                          (q2\<lparr>secondary_monitors_enabled := get_active_monitors q2\<rparr>))"
  have init: "QMS_init nd scan1 scan2 w = load_settings q4 (snd p)"
    by (simp add: QMS_init_def Let_def q4_def q2_def p_def q0_def split_beta)
  have boxes: "monitor_checkboxes q4 = (if nd then None else Some (checkbox_loop scan2 []))"
    and mons: "monitors q4 = (if nd then scan1 else scan2)"
    and cs: "calls (snd p) = calls w @ (if nd then [GenerateMonitors scan1]
                                        else [GenerateMonitors scan1, GenerateMonitors scan2])"
    and fl: "settings_file (snd p) = settings_file w"
    by (simp_all add: q4_def q2_def p_def q0_def create_monitor_checkboxes_def
        generate_monitors_def update_tray_icon_def update_tray_menu_def)
  have "boxes_from_scan q4 (snd p)"
    using boxes mons cs
    by (simp add: boxes_from_scan_def last_scan_append checkbox_loop_keys_image
        checkbox_loop_distinct)
  moreover have "case monitor_checkboxes q4 of None \<Rightarrow> True
                 | Some cbs \<Rightarrow> checked_names cbs = []"
  proof -
    have "checked_names (checkbox_loop scan2 []) = []"
      by (rule checkbox_loop_unchecked) (simp add: checked_names_def)
    with boxes show ?thesis by simp
  qed
  ultimately show ?thesis using init fl by blast
qed

lemma QMS_init_boxes:
  assumes "QMS_init nd scan1 scan2 w = (e, q, w')"
  shows "boxes_from_scan q w'"
proof -
  from QMS_init_as_load [of nd scan1 scan2 w] obtain q4 w1
    where "QMS_init nd scan1 scan2 w = load_settings q4 w1" and inv: "boxes_from_scan q4 w1"
    by blast
  with assms have "load_settings q4 w1 = (e, q, w')" by simp
  with inv show ?thesis by (rule load_settings_boxes)
qed

lemma json_strings_JStr: "json_strings (map JStr ns) = ns"
  by (induction ns) simp_all

lemma persisted_settings_doc: "persisted_names (Some (JsonText (settings_doc ns))) = ns"
  by (simp add: settings_doc_def json_strings_JStr)

lemma checked_names_keys: "set (checked_names cbs) \<subseteq> set (map fst cbs)"
  by (auto simp: checked_names_def)

lemma save_settings_names:
  "monitor_checkboxes q = Some cbs \<Longrightarrow> save_settings q w = (e, q', w') \<Longrightarrow>
     monitor_checkboxes q' = Some cbs \<and> persisted_names (settings_file w') = checked_names cbs"
  by (auto simp: save_settings_def Let_def persisted_settings_doc)

lemma setChecked_file:
  assumes "setChecked n b q w = (e, q', w')"
  shows "(q' = q \<and> w' = w)
     \<or> (\<exists>cbs. monitor_checkboxes q' = Some cbs
            \<and> persisted_names (settings_file w') = checked_names cbs)"
proof (cases "monitor_checkboxes q")
  case None
  with assms show ?thesis by (simp add: setChecked_def)
next
  case (Some cbs)
  show ?thesis
  proof (cases "map_of cbs n")
    case None
    with Some assms show ?thesis by (simp add: setChecked_def)
  next
    case c: (Some c)
    show ?thesis
    proof (cases "c = b")
      case True
      with Some c assms show ?thesis by (simp add: setChecked_def)
    next
      case False
      with Some c assms
      have "save_settings (q\<lparr>monitor_checkboxes := Some (set_box n b cbs)\<rparr>) w = (e, q', w')"
        by (simp add: setChecked_def)
      from save_settings_names [OF _ this, of "set_box n b cbs"] show ?thesis by simp
    qed
  qed
qed

lemma load_loop_file:
  assumes "load_loop ns q w = (e, q', w')"
  shows "(q' = q \<and> w' = w)
     \<or> (\<exists>cbs. monitor_checkboxes q' = Some cbs
            \<and> persisted_names (settings_file w') = checked_names cbs)"
  using assms
proof (induction ns arbitrary: q w)
  case Nil
  then show ?case by simp
next
  case (Cons n ns)
  show ?case
  proof (cases "settings_get (settings q)")
    case (Inl err)
    with Cons.prems show ?thesis by simp
  next
    case (Inr v)
    show ?thesis
    proof (cases "py_in n v")
      case (Inl err)
      with Inr Cons.prems show ?thesis by simp
    next
      case b: (Inr b)
      obtain e1 q1 w1 where sc: "setChecked n b q w = (e1, q1, w1)"
        by (cases "setChecked n b q w")
      note first = setChecked_file [OF sc]
      show ?thesis
      proof (cases e1)
        case (Some err)
        with Inr b sc Cons.prems have "q' = q1" "w' = w1" by simp_all
        with first show ?thesis by simp
      next
        case None
        with Inr b sc Cons.prems have "load_loop ns q1 w1 = (e, q', w')" by simp
        from Cons.IH [OF this] first show ?thesis by blast
      qed
    qed
  qed
qed

lemma load_settings_file:
  assumes "load_settings q w = (e, q', w')"
  shows "settings_file w' = settings_file w
     \<or> (\<exists>cbs. monitor_checkboxes q' = Some cbs
            \<and> persisted_names (settings_file w') = checked_names cbs)"
proof (cases "settings_file w")
  case None
  with assms show ?thesis by (auto simp: load_settings_def)
next
  case (Some f)
  show ?thesis
  proof (cases f)
    case NotJson
    with Some assms show ?thesis by (auto simp: load_settings_def)
  next
    case NotText
    with Some assms show ?thesis by (auto simp: load_settings_def)
  next
    case (JsonText doc)
    show ?thesis
    proof (cases "monitor_checkboxes q")
      case None
      with Some JsonText assms show ?thesis by (auto simp: load_settings_def)
    next
      case cbs: (Some cbs)
      obtain e2 q2 w2 where l: "load_loop (map fst cbs) (q\<lparr>settings := doc\<rparr>) w = (e2, q2, w2)"
        by (cases "load_loop (map fst cbs) (q\<lparr>settings := doc\<rparr>) w")
      have "q' = q2 \<and> w' = w2"
        using Some JsonText cbs l assms
        by (cases e2) (auto simp: load_settings_def Let_def split: error.splits)
      with load_loop_file [OF l] show ?thesis by auto
    qed
  qed
qed

lemma written_within_scan:
  assumes "boxes_from_scan q w" and "monitor_checkboxes q = Some cbs"
    and "persisted_names (settings_file w) = checked_names cbs"
  shows "\<exists>s. last_scan (calls w) = Some s
            \<and> set (persisted_names (settings_file w)) \<subseteq> selectable_names s"
  using assms checked_names_keys [of cbs] by (auto simp: boxes_from_scan_def)

lemma main_as_init:
  "raised (main nd scan1 scan2 w) = raised (QMS_init nd scan1 scan2 w)
   \<and> world_of (main nd scan1 scan2 w) = world_of (QMS_init nd scan1 scan2 w)
   \<and> monitors (state_of (main nd scan1 scan2 w)) = monitors (state_of (QMS_init nd scan1 scan2 w))
   \<and> monitor_checkboxes (state_of (main nd scan1 scan2 w))
        = monitor_checkboxes (state_of (QMS_init nd scan1 scan2 w))"
  by (cases "QMS_init nd scan1 scan2 w")
    (auto simp: main_def raised_def state_of_def world_of_def split: option.splits)

lemma main_boxes: "boxes_from_scan (state_of (main nd scan1 scan2 w)) (world_of (main nd scan1 scan2 w))"
proof -
  obtain e q w' where init: "QMS_init nd scan1 scan2 w = (e, q, w')"
    by (cases "QMS_init nd scan1 scan2 w")
  from main_as_init [of nd scan1 scan2 w] init
  have "monitors (state_of (main nd scan1 scan2 w)) = monitors q"
    and "world_of (main nd scan1 scan2 w) = w'"
    and "monitor_checkboxes (state_of (main nd scan1 scan2 w)) = monitor_checkboxes q"
    by (simp_all add: state_of_def world_of_def)
  then show ?thesis
    by (auto intro: boxes_from_scan_frame [OF QMS_init_boxes [OF init]])
qed

lemma main_file:
  "settings_file (world_of (main nd scan1 scan2 w)) = settings_file w
   \<or> (\<exists>s. last_scan (calls (world_of (main nd scan1 scan2 w))) = Some s
          \<and> set (persisted_names (settings_file (world_of (main nd scan1 scan2 w))))
              \<subseteq> selectable_names s)"
proof -
  obtain e q w' where init: "QMS_init nd scan1 scan2 w = (e, q, w')"
    by (cases "QMS_init nd scan1 scan2 w")
  from QMS_init_as_load [of nd scan1 scan2 w] obtain q4 w1
    where load: "QMS_init nd scan1 scan2 w = load_settings q4 w1"
      and fl: "settings_file w1 = settings_file w"
    by blast
  from load init have "load_settings q4 w1 = (e, q, w')" by simp
  from load_settings_file [OF this] fl
  have "settings_file w' = settings_file w
     \<or> (\<exists>cbs. monitor_checkboxes q = Some cbs
            \<and> persisted_names (settings_file w') = checked_names cbs)"
    by simp
  with written_within_scan [OF QMS_init_boxes [OF init]]
  have "settings_file w' = settings_file w
     \<or> (\<exists>s. last_scan (calls w') = Some s
            \<and> set (persisted_names (settings_file w')) \<subseteq> selectable_names s)"
    by blast
  with main_as_init [of nd scan1 scan2 w] init show ?thesis
    by (simp add: world_of_def)
qed

lemma run_from_boxes:
  assumes "run_from as (main nd scan1 scan2 w0) = (e, q, w)"
  shows "boxes_from_scan q w"
proof -
  obtain e0 q0 w1 where m: "main nd scan1 scan2 w0 = (e0, q0, w1)"
    by (cases "main nd scan1 scan2 w0")
  with main_boxes [of nd scan1 scan2 w0] have inv: "boxes_from_scan q0 w1"
    by (simp add: state_of_def world_of_def)
  show ?thesis
  proof (cases e0)
    case None
    with m assms have "run as q0 w1 = (e, q, w)" by (simp add: run_from_def)
    with inv show ?thesis by (rule run_boxes)
  next
    case (Some err)
    with m assms inv show ?thesis by (simp add: run_from_def)
  qed
qed

lemma toggle_loop_file: "toggle_loop cbs q w = (e, w') \<Longrightarrow> settings_file w' = settings_file w"
  using toggle_loop_calls by blast

lemma toggle_file:
  "settings_file (world_of (toggle_secondary_monitors scan q w)) = settings_file w"
proof -
  let ?w1 = "if \<not> secondary_monitors_enabled q then run_display_switch ''/extend'' w else w"
  let ?r = "if \<not> no_ddcci q then
              (case monitor_checkboxes q of
                 None \<Rightarrow> (Some AttributeError, ?w1)
               | Some cbs \<Rightarrow> toggle_loop cbs q ?w1)
            else (None, ?w1)"
  obtain e2 w2 where r: "?r = (e2, w2)" by (cases ?r)
  have w1: "settings_file ?w1 = settings_file w"
    by (simp add: run_display_switch_def)
  have "settings_file w2 = settings_file ?w1"
    using r by (auto split: if_splits option.splits dest: toggle_loop_file)
  with w1 have w2: "settings_file w2 = settings_file w" by simp
  show ?thesis
    using r w2
    by (cases e2)
      (auto simp: toggle_secondary_monitors_def Let_def world_of_def
        create_monitor_checkboxes_def run_display_switch_def split: if_splits)
qed

text \<open>
  C3, as the code has it. The settings file is written only by \<^verbatim>\<open>save_settings\<close>, which
  runs on a checkbox state change. In any state reached from the start of the application
  by clicks, rescans and toggles, such a change writes exactly the names checked after it,
  and these are names of monitors with \<^verbatim>\<open>monitor[3] == "No"\<close> of the most recent scan.
  The same holds for what the start itself leaves in the file, unless it left the file
  untouched. A rescan and a toggle do not write the file.
\<close>

theorem writes_within_last_scan:
  assumes "run_from as (main nd scan1 scan2 w0) = (None, q, w)"
    and "monitor_checkboxes q = Some cbs" and "map_of cbs n = Some c" and "b \<noteq> c"
  shows "(\<exists>s. last_scan (calls (world_of (setChecked n b q w))) = Some s
           \<and> persisted_names (settings_file (world_of (setChecked n b q w)))
               = checked_names (set_box n b cbs)
           \<and> set (persisted_names (settings_file (world_of (setChecked n b q w))))
               \<subseteq> selectable_names s)
     \<and> (settings_file (world_of (main nd scan1 scan2 w0)) = settings_file w0
          \<or> (\<exists>s. last_scan (calls (world_of (main nd scan1 scan2 w0))) = Some s
                 \<and> set (persisted_names (settings_file (world_of (main nd scan1 scan2 w0))))
                     \<subseteq> selectable_names s))
     \<and> settings_file (snd (create_monitor_checkboxes scan q w)) = settings_file w
     \<and> settings_file (world_of (toggle_secondary_monitors scan q w)) = settings_file w"
proof -
  let ?q' = "q\<lparr>monitor_checkboxes := Some (set_box n b cbs),
               settings := settings_doc (checked_names (set_box n b cbs))\<rparr>"
  let ?w' = "w\<lparr>settings_file := Some (JsonText (settings_doc (checked_names (set_box n b cbs))))\<rparr>"
  have change: "setChecked n b q w = (None, ?q', ?w')"
    using assms(2-4) by (rule setChecked_change)
  from run_from_boxes [OF assms(1)] have "boxes_from_scan q w" .
  then have "boxes_from_scan ?q' ?w'"
    using change by (rule setChecked_boxes)
  moreover have "monitor_checkboxes ?q' = Some (set_box n b cbs)" by simp
  moreover have names: "persisted_names (settings_file ?w') = checked_names (set_box n b cbs)"
    by (simp add: persisted_settings_doc)
  ultimately have "\<exists>s. last_scan (calls ?w') = Some s
      \<and> set (persisted_names (settings_file ?w')) \<subseteq> selectable_names s"
    by (rule written_within_scan)
  with names change
  have first: "\<exists>s. last_scan (calls (world_of (setChecked n b q w))) = Some s
           \<and> persisted_names (settings_file (world_of (setChecked n b q w)))
               = checked_names (set_box n b cbs)
           \<and> set (persisted_names (settings_file (world_of (setChecked n b q w))))
               \<subseteq> selectable_names s"
    by (simp add: world_of_def)
  have "settings_file (snd (create_monitor_checkboxes scan q w)) = settings_file w"
    by (simp add: create_monitor_checkboxes_def)
  with first main_file [of nd scan1 scan2 w0] toggle_file [of scan q w] show ?thesis
    by blast
qed

theorem writes_within_last_scan_witness:
  "run_from [Rescan [monitor1, monitor2]] (main False [monitor1] [monitor1] first_start)
     = (None,
        \<lparr>no_ddcci = False, monitors = [monitor1, monitor2],
         monitor_checkboxes = Some [(''Monitor1'', False), (''Monitor2'', False)],
         settings = JObj [], first_run = True, secondary_monitors_enabled = True,
         tray_variant = ''primary'', tray_action = ''Disable secondary monitors'',
         visible = True\<rparr>,
        \<lparr>settings_file = None,
         calls = [GenerateMonitors [monitor1], GenerateMonitors [monitor1],
                  GenerateMonitors [monitor1, monitor2]]\<rparr>)
   \<and> persisted_names (settings_file (world_of (setChecked ''Monitor2'' True
        \<lparr>no_ddcci = False, monitors = [monitor1, monitor2],
         monitor_checkboxes = Some [(''Monitor1'', False), (''Monitor2'', False)],
         settings = JObj [], first_run = True, secondary_monitors_enabled = True,
         tray_variant = ''primary'', tray_action = ''Disable secondary monitors'',
         visible = True\<rparr>
        \<lparr>settings_file = None,
         calls = [GenerateMonitors [monitor1], GenerateMonitors [monitor1],
                  GenerateMonitors [monitor1, monitor2]]\<rparr>)))
      = [''Monitor2'']
   \<and> selectable_names [monitor1, monitor2] = {''Monitor1'', ''Monitor2''}"
proof -
  let ?q = "\<lparr>no_ddcci = False, monitors = [monitor1, monitor2],
         monitor_checkboxes = Some [(''Monitor1'', False), (''Monitor2'', False)],
         settings = JObj [], first_run = True, secondary_monitors_enabled = True,
         tray_variant = ''primary'', tray_action = ''Disable secondary monitors'',
         visible = True\<rparr>"
  let ?w = "\<lparr>settings_file = None,
         calls = [GenerateMonitors [monitor1], GenerateMonitors [monitor1],
                  GenerateMonitors [monitor1, monitor2]]\<rparr>"
  have reach: "run_from [Rescan [monitor1, monitor2]] (main False [monitor1] [monitor1] first_start)
     = (None, ?q, ?w)"
    by (simp add: operation_defs example_defs run_from_def Let_def)
  have boxes: "monitor_checkboxes ?q = Some [(''Monitor1'', False), (''Monitor2'', False)]"
    by simp
  have box: "map_of [(''Monitor1'', False), (''Monitor2'', False)] ''Monitor2'' = Some False"
    by simp
  have change: "True \<noteq> False"
    by simp
  from writes_within_last_scan [OF reach boxes box change]
  have "persisted_names (settings_file (world_of (setChecked ''Monitor2'' True ?q ?w)))
      = checked_names (set_box ''Monitor2'' True [(''Monitor1'', False), (''Monitor2'', False)])"
    by blast
  then have "persisted_names (settings_file (world_of (setChecked ''Monitor2'' True ?q ?w)))
      = [''Monitor2'']"
    by (simp add: checked_names_def set_box_def)
  moreover have "selectable_names [monitor1, monitor2] = {''Monitor1'', ''Monitor2''}"
    by (simp add: selectable_names_def example_defs)
  ultimately show ?thesis using reach by simp
qed

text \<open>
  C3, as the claim states it, fails: the file is not rewritten by a rescan. After the
  checkbox of \<^verbatim>\<open>Monitor1\<close> is checked and a rescan finds no monitor, the file still
  lists \<^verbatim>\<open>Monitor1\<close>, which is not a name of the most recent scan.
\<close>

theorem stale_names_counterexample:
  "persisted_names (settings_file (world_of
      (run_from [Click ''Monitor1'', Rescan []]
         (main False [monitor1] [monitor1] first_start)))) = [''Monitor1'']
   \<and> last_scan (calls (world_of
      (run_from [Click ''Monitor1'', Rescan []]
         (main False [monitor1] [monitor1] first_start)))) = Some []
   \<and> \<not> set (persisted_names (settings_file (world_of
      (run_from [Click ''Monitor1'', Rescan []]
         (main False [monitor1] [monitor1] first_start))))) \<subseteq> selectable_names []"
  by (simp add: operation_defs example_defs outcome_defs run_from_def selectable_names_def Let_def)

section \<open>Stored selections across a rescan, a toggle and a restart\<close>

lemma checked_iff_map_of:
  assumes "distinct (map fst cbs)" and "map_of cbs n = Some c"
  shows "(n \<in> set (checked_names cbs)) = c"
proof -
  have "(n \<in> set (checked_names cbs)) = ((n, True) \<in> set cbs)"
    by (force simp: checked_names_def)
  also have "\<dots> = (map_of cbs n = Some True)"
    using assms(1) by simp
  finally show ?thesis using assms(2) by auto
qed

lemma load_loop_after_save:
  assumes "monitor_checkboxes q = Some cbs" and "distinct (map fst cbs)"
    and "settings q = settings_doc (checked_names cbs)"
    and "set ns \<subseteq> set (map fst cbs)"
  shows "load_loop ns q w = (None, q, w)"
  using assms(4)
proof (induction ns)
  case Nil
  then show ?case by simp
next
  case (Cons n ns)
  from Cons.prems obtain c where c: "map_of cbs n = Some c"
    by (cases "map_of cbs n") (auto simp: map_of_eq_None_iff)
  have get: "settings_get (settings q) = Inr (JArr (map JStr (checked_names cbs)))"
    by (simp add: assms(3) settings_doc_def)
  have "(JStr n \<in> set (map JStr (checked_names cbs))) = (n \<in> set (checked_names cbs))"
    by auto
  with checked_iff_map_of [OF assms(2) c]
  have isin: "py_in n (JArr (map JStr (checked_names cbs))) = Inr c"
    by simp
  have same: "setChecked n c q w = (None, q, w)"
    using assms(1) c by (simp add: setChecked_def)
  from Cons have "load_loop ns q w = (None, q, w)" by simp
  with get isin same show ?case by simp
qed

text \<open>
  Called on the very object that has just saved, \<^verbatim>\<open>load_settings\<close> finds every
  checkbox already in the state the file asks for and changes nothing.
\<close>

lemma save_then_load_same_object:
  assumes "monitor_checkboxes q = Some cbs" and "distinct (map fst cbs)"
  shows "load_settings (state_of (save_settings q w)) (world_of (save_settings q w))
           = save_settings q w"
proof -
  let ?doc = "settings_doc (checked_names cbs)"
  let ?q1 = "q\<lparr>settings := ?doc\<rparr>"
  let ?w1 = "w\<lparr>settings_file := Some (JsonText ?doc)\<rparr>"
  have save: "save_settings q w = (None, ?q1, ?w1)"
    using assms(1) by (simp add: save_settings_def Let_def)
  have "load_loop (map fst cbs) ?q1 ?w1 = (None, ?q1, ?w1)"
    using assms by (intro load_loop_after_save [of _ cbs]) simp_all
  then have "load_settings ?q1 ?w1 = (None, ?q1, ?w1)"
    using assms(1) by (simp add: load_settings_def Let_def)
  with save show ?thesis by (simp add: state_of_def world_of_def)
qed

text \<open>
  C4 on the code. In a first session the user checks \<^verbatim>\<open>Monitor1\<close> and
  \<^verbatim>\<open>Monitor2\<close>, and \<^verbatim>\<open>save_settings\<close> writes both names. The application is
  started again on the file this left, with the same two monitors. \<^verbatim>\<open>load_settings\<close>
  checks the box of \<^verbatim>\<open>Monitor1\<close>; the state change runs \<^verbatim>\<open>save_settings\<close>, which
  replaces \<^verbatim>\<open>self.settings\<close> and the file by the single name checked so far; the
  next iteration reads \<^verbatim>\<open>self.settings\<close> again and leaves \<^verbatim>\<open>Monitor2\<close> unchecked.
\<close>

theorem restart_loses_selection:
  "monitor_checkboxes (state_of (run_from [Click ''Monitor1'', Click ''Monitor2'']
       (main False [monitor1, monitor2] [monitor1, monitor2] first_start)))
     = Some [(''Monitor1'', True), (''Monitor2'', True)]
   \<and> settings_file (world_of (run_from [Click ''Monitor1'', Click ''Monitor2'']
       (main False [monitor1, monitor2] [monitor1, monitor2] first_start)))
     = settings_file two_saved
   \<and> raised (main False [monitor1, monitor2] [monitor1, monitor2] two_saved) = None
   \<and> monitor_checkboxes (state_of (main False [monitor1, monitor2] [monitor1, monitor2] two_saved))
     = Some [(''Monitor1'', True), (''Monitor2'', False)]
   \<and> settings (state_of (main False [monitor1, monitor2] [monitor1, monitor2] two_saved))
     = settings_doc [''Monitor1'']
   \<and> settings_file (world_of (main False [monitor1, monitor2] [monitor1, monitor2] two_saved))
     = Some (JsonText (settings_doc [''Monitor1'']))"
  by (simp add: operation_defs example_defs outcome_defs run_from_def Let_def)

text \<open>
  C8 on the code. With the box of \<^verbatim>\<open>Monitor1\<close> checked and saved, a rescan that finds
  the same monitor builds a new, unchecked checkbox and does not apply the stored
  selection: the box is unchecked afterwards, while the file and \<^verbatim>\<open>self.settings\<close>
  still list \<^verbatim>\<open>Monitor1\<close>.
\<close>

theorem rescan_drops_selection:
  "monitor_checkboxes (state_of (run_from [Click ''Monitor1'']
       (main False [monitor1] [monitor1] first_start)))
     = Some [(''Monitor1'', True)]
   \<and> monitor_checkboxes (state_of (run_from [Click ''Monitor1'', Rescan [monitor1]]
       (main False [monitor1] [monitor1] first_start)))
     = Some [(''Monitor1'', False)]
   \<and> settings (state_of (run_from [Click ''Monitor1'', Rescan [monitor1]]
       (main False [monitor1] [monitor1] first_start)))
     = settings_doc [''Monitor1'']
   \<and> settings_file (world_of (run_from [Click ''Monitor1'', Rescan [monitor1]]
       (main False [monitor1] [monitor1] first_start)))
     = Some (JsonText (settings_doc [''Monitor1'']))"
  by (simp add: operation_defs example_defs outcome_defs run_from_def Let_def)

text \<open>
  C2 on the code. The secondary monitors are enabled and the box of \<^verbatim>\<open>Monitor1\<close> is
  checked. The first toggle disables \<^verbatim>\<open>Monitor1\<close> and switches to the internal
  display; it ends in \<^verbatim>\<open>create_monitor_checkboxes\<close>, which leaves every box unchecked.
  The second toggle switches back to the extended desktop and addresses no monitor:
  \<^verbatim>\<open>Monitor1\<close> is never enabled again, although the flag is back to its first value.
\<close>

theorem double_toggle_calls:
  "secondary_monitors_enabled (state_of (run_from [Click ''Monitor1'']
       (main False [monitor1] [monitor1] first_start)))
   \<and> new_calls
       (world_of (run_from [Click ''Monitor1'']
          (main False [monitor1] [monitor1] first_start)))
       (world_of (run_from [Click ''Monitor1'', Toggle [monitor1_off], Toggle [monitor1_off]]
          (main False [monitor1] [monitor1] first_start)))
     = [ToggleMonitors [''Monitor1''] False, RunDisplaySwitch ''/internal'',
        GenerateMonitors [monitor1_off],
        RunDisplaySwitch ''/extend'', GenerateMonitors [monitor1_off]]
   \<and> secondary_monitors_enabled
       (state_of (run_from [Click ''Monitor1'', Toggle [monitor1_off], Toggle [monitor1_off]]
          (main False [monitor1] [monitor1] first_start)))
   \<and> monitor_checkboxes
       (state_of (run_from [Click ''Monitor1'', Toggle [monitor1_off], Toggle [monitor1_off]]
          (main False [monitor1] [monitor1] first_start)))
     = Some [(''Monitor1'', False)]"
  by (simp add: operation_defs example_defs outcome_defs run_from_def new_calls_def Let_def)

end
